theory Spec2Isabelle
  imports Main "HOL-Library.Char_ord" "HOL-Library.List_Lexorder"
begin

section \<open>Data model of the node handlers (src/maas_extra/nodes.py)\<close>

text \<open>
  The handlers read the status constants as attributes of \<open>NODE_STATUS\<close>
  (maasserver.enum), a class of integer constants that is imported, not defined, by
  nodes.py. The attribute names are a datatype; the table of their integer values is a
  parameter of every definition that reads a constant, so that each theorem holds for
  whatever values the enumeration gives them.
\<close>

datatype status_name =
    NEW | COMMISSIONING | FAILED_COMMISSIONING | READY | RESERVED | ALLOCATED
  | DEPLOYING | DEPLOYED | RELEASING | DISK_ERASING | FAILED_DEPLOYMENT
  | FAILED_RELEASING | FAILED_DISK_ERASING | BROKEN | RETIRED

datatype perm = VIEW | EDIT | ADMIN

type_synonym user = string

text \<open>A network a node is attached to: name, subnet (base address and prefix length) and
  VLAN tag.\<close>

record network =
  net_name :: string
  net_base :: nat
  net_prefix :: nat
  net_vlan :: nat

text \<open>A node as the handlers see it: the stored \<open>status\<close> is the integer of the
  database column.\<close>

record node =
  system_id :: string
  hostname :: string
  architecture :: string
  cpu_count :: nat
  memory :: nat
  status :: int
  owner :: "user option"
  zone :: string
  tags :: "string list"
  routers :: "string list"
  networks :: "network list"
  agent_name :: string
  nodegroup :: "string option"
  power_type :: string
  power_parameters :: string

text \<open>The registry is the table of nodes, in the order in which a query yields its rows.\<close>

type_synonym registry = "node list"

text \<open>The exceptions the handlers raise. \<open>ValidationError\<close> holds a list of
  messages, as Django's does.\<close>

datatype error =
    Http404
  | PermissionDenied string
  | NodeStateViolation string
  | MAASAPIBadRequest string
  | NodesNotAvailable string
  | ValidationError "string list"

text \<open>An HTTP request: the submitted parameters (\<open>request.data\<close> and
  \<open>request.POST\<close>, one value per key) and the authenticated user.\<close>

record request =
  data :: "string \<rightharpoonup> string"
  POST :: "string \<rightharpoonup> string"
  req_user :: user

section \<open>What the handlers import\<close>

text \<open>
  nodes.py imports its collaborators from maasserver; none of them is defined in the
  repository. They are the fields of one record, passed to every handler:
  the table \<open>NODE_STATUS\<close>, the list \<open>RELEASABLE_STATUSES\<close>
  (maasserver.models.node), the permission test behind \<open>Node.objects.get_nodes\<close> and
  \<open>get_node_or_404\<close>, the node methods \<open>release_or_erase\<close> and
  \<open>display_status\<close>, the statuses in which a node counts as already accepted,
  \<open>find_nodegroup\<close>, the validation of the node-creation form, the identifier a new
  row receives, \<open>get_power_types\<close>, \<open>UNKNOWN_POWER_TYPE\<close> and
  \<open>json.loads\<close> (\<open>None\<close> for its ValueError). The theorems hold for every
  such record.

  One field is not an import but the language: \<open>set_order\<close> is the order in which
  Python iterates over a set, which \<open>', '.join(a_set)\<close> follows. The language fixes
  only that every element comes once; a theorem that needs this says so.
\<close>

record env =
  NODE_STATUS :: "status_name \<Rightarrow> int"
  RELEASABLE_STATUSES :: "int list"
  has_perm :: "user \<Rightarrow> perm \<Rightarrow> node \<Rightarrow> bool"
  release_or_erase :: "node \<Rightarrow> node"
  display_status :: "node \<Rightarrow> string"
  ACCEPTED_STATUSES :: "int list"
  find_nodegroup :: "request \<Rightarrow> string option"
  node_form_errors :: "user \<Rightarrow> (string \<rightharpoonup> string) \<Rightarrow> string list"
  new_system_id :: "registry \<Rightarrow> string"
  get_power_types :: "string option \<Rightarrow> string list"
  UNKNOWN_POWER_TYPE :: string
  json_loads :: "string \<Rightarrow> string option"
  set_order :: "string list \<Rightarrow> string list"

section \<open>The two status views (NodeHandler.status, NodeHandler.substatus)\<close>

definition NodeHandler_status :: "env \<Rightarrow> node \<Rightarrow> int" where
  "NodeHandler_status E n =
     (let old_allocated_status_aliases =
            [NODE_STATUS E ALLOCATED, NODE_STATUS E DEPLOYING,
             NODE_STATUS E DEPLOYED, NODE_STATUS E FAILED_DEPLOYMENT];
          old_deployed_status_aliases =
            [NODE_STATUS E RELEASING, NODE_STATUS E DISK_ERASING,
             NODE_STATUS E FAILED_RELEASING, NODE_STATUS E FAILED_DISK_ERASING];
          deployed_aliases = old_allocated_status_aliases @ old_deployed_status_aliases
      in if status n \<in> set deployed_aliases then 6 else status n)"

definition NodeHandler_substatus :: "node \<Rightarrow> int" where
  "NodeHandler_substatus n = status n"

text \<open>The two groups of status names the coarse view is concerned with.\<close>

definition allocated_group :: "status_name list" where
  "allocated_group = [ALLOCATED, DEPLOYING, DEPLOYED, FAILED_DEPLOYMENT]"

definition releasing_group :: "status_name list" where
  "releasing_group = [RELEASING, DISK_ERASING, FAILED_RELEASING, FAILED_DISK_ERASING]"

section \<open>Registry access\<close>

text \<open>Python's \<open>sep.join(xs)\<close>.\<close>

fun join :: "string \<Rightarrow> string list \<Rightarrow> string" where
  "join sep [] = []"
| "join sep [x] = x"
| "join sep (x # y # ys) = x @ sep @ join sep (y # ys)"

text \<open>Python's truth test on the result of \<open>request.data.get(key, None)\<close>: the
  parameter was given, and is not the empty string; and \<open>request.data.get(key, '')\<close>.\<close>

definition given :: "string option \<Rightarrow> bool" where
  "given v = (case v of None \<Rightarrow> False | Some x \<Rightarrow> x \<noteq> [])"

definition str_of :: "string option \<Rightarrow> string" where
  "str_of v = (case v of None \<Rightarrow> [] | Some x \<Rightarrow> x)"

text \<open>\<open>node.save()\<close>: the row with the node's identifier is replaced.\<close>

definition save :: "registry \<Rightarrow> node \<Rightarrow> registry" where
  "save db n = map (\<lambda>m. if system_id m = system_id n then n else m) db"

text \<open>
  Modelled from the spec: \<open>Node.objects.get_node_or_404\<close> and
  \<open>Node.objects.get_nodes\<close> (maasserver.models.node, not in the repository), as the
  registry storage and the permission oracle of the specification's section 6 and the
  handlers' docstrings describe them: the first returns the node with the identifier,
  404 if there is none and 403 if the user lacks the permission; the second lists the
  nodes among the given identifiers on which the user holds the permission.
\<close>

definition get_node_or_404 :: "env \<Rightarrow> registry \<Rightarrow> string \<Rightarrow> user \<Rightarrow> perm \<Rightarrow> error + node" where
  "get_node_or_404 E db sid u p =
     (case find (\<lambda>n. system_id n = sid) db of
        None \<Rightarrow> Inl Http404
      | Some n \<Rightarrow> if has_perm E u p n then Inr n else Inl (PermissionDenied []))"

definition get_nodes :: "env \<Rightarrow> registry \<Rightarrow> user \<Rightarrow> perm \<Rightarrow> string list \<Rightarrow> node list" where
  "get_nodes E db u p ids = filter (\<lambda>n. has_perm E u p n \<and> system_id n \<in> set ids) db"

section \<open>Releasing one node (NodeHandler.release)\<close>

text \<open>A handler returns what it raised or returned, and the registry it leaves behind.\<close>

definition release_message :: "env \<Rightarrow> node \<Rightarrow> string" where
  "release_message E n =
     ''Node cannot be released in its current state ('' @ [CHR 0x27] @ display_status E n
       @ [CHR 0x27] @ '').''"

definition NodeHandler_release ::
    "env \<Rightarrow> registry \<Rightarrow> user \<Rightarrow> string \<Rightarrow> (error + node) \<times> registry" where
  "NodeHandler_release E db u sid =
     (case get_node_or_404 E db sid u EDIT of
        Inl e \<Rightarrow> (Inl e, db)
      | Inr n \<Rightarrow>
          if status n = NODE_STATUS E READY then (Inr n, db)
          else if status n \<in> set (RELEASABLE_STATUSES E)
          then (Inr (release_or_erase E n), save db (release_or_erase E n))
          else (Inl (NodeStateViolation (release_message E n)), db))"

section \<open>Releasing many nodes (NodesHandler.release)\<close>

text \<open>
  \<open>system_ids\<close> is a Python set, here a list without duplicates that holds its
  elements; \<open>len\<close> is its length and \<open>in\<close> is membership. The order of the list
  means nothing: where the code iterates over a set, to join it into a message, the
  elements are taken in the order \<open>set_order\<close> gives them.
\<close>

definition set_minus :: "string list \<Rightarrow> string list \<Rightarrow> string list" where
  "set_minus xs ys = filter (\<lambda>x. x \<notin> set ys) xs"

definition check_system_ids_exist ::
    "env \<Rightarrow> registry \<Rightarrow> string list \<Rightarrow> error + unit" where
  "check_system_ids_exist E db system_ids =
     (if system_ids = [] then Inr ()
      else
        let existing_nodes = filter (\<lambda>n. system_id n \<in> set system_ids) db;
            existing_ids = remdups (map system_id existing_nodes);
            unknown_ids = set_minus system_ids existing_ids
        in if length unknown_ids > 0
           then Inl (MAASAPIBadRequest
                  (''Unknown node(s): '' @ join '', '' (set_order E unknown_ids) @ ''.''))
           else Inr ())"

definition release_denied :: "string list \<Rightarrow> string" where
  "release_denied ids =
     ''You don'' @ [CHR 0x27] @ ''t have the required permission to release the ''
       @ ''following node(s): '' @ join '', '' ids @ ''.''"

definition failed_entry :: "env \<Rightarrow> node \<Rightarrow> string" where
  "failed_entry E n =
     system_id n @ '' ('' @ [CHR 0x27] @ display_status E n @ [CHR 0x27] @ '')''"

text \<open>The loop over \<open>nodes\<close>, with the registry, \<open>released_ids\<close> and
  \<open>failed\<close> as its state.\<close>

fun release_loop ::
    "env \<Rightarrow> node list \<Rightarrow> registry \<times> string list \<times> string list
       \<Rightarrow> registry \<times> string list \<times> string list" where
  "release_loop E [] acc = acc"
| "release_loop E (n # ns) (db, released_ids, failed) =
     (if status n = NODE_STATUS E READY
      then release_loop E ns (db, released_ids, failed)
      else if status n \<in> set (RELEASABLE_STATUSES E)
      then release_loop E ns
             (save db (release_or_erase E n),
              released_ids @ [system_id (release_or_erase E n)], failed)
      else release_loop E ns (db, released_ids, failed @ [failed_entry E n]))"

text \<open>Python's \<open>any\<close> on a list of strings: some element is not empty.\<close>

definition any_str :: "string list \<Rightarrow> bool" where
  "any_str xs = list_ex (\<lambda>x. x \<noteq> []) xs"

definition NodesHandler_release ::
    "env \<Rightarrow> registry \<Rightarrow> user \<Rightarrow> string list \<Rightarrow> (error + string list) \<times> registry" where
  "NodesHandler_release E db u posted =
     (let system_ids = remdups posted in
      case check_system_ids_exist E db system_ids of
        Inl e \<Rightarrow> (Inl e, db)
      | Inr _ \<Rightarrow>
          let nodes = get_nodes E db u EDIT system_ids in
          if length nodes < length system_ids
          then
            let permitted_ids = remdups (map system_id nodes)
            in (Inl (PermissionDenied
                     (release_denied (set_order E (set_minus system_ids permitted_ids)))), db)
          else
            case release_loop E nodes (db, [], []) of
              (db', released_ids, failed) \<Rightarrow>
                if any_str failed
                then (Inl (NodeStateViolation
                        (''Node(s) cannot be released in their current state: ''
                           @ join '', '' failed @ ''.'')), db')
                else (Inr released_ids, db'))"

text \<open>Names for what the loop does to a node: it releases the node, or it records a
  failure; and the nodes a call is about, in the registry's order.\<close>

definition to_release :: "env \<Rightarrow> node \<Rightarrow> bool" where
  "to_release E n =
     (status n \<noteq> NODE_STATUS E READY \<and> status n \<in> set (RELEASABLE_STATUSES E))"

definition to_fail :: "env \<Rightarrow> node \<Rightarrow> bool" where
  "to_fail E n =
     (status n \<noteq> NODE_STATUS E READY \<and> status n \<notin> set (RELEASABLE_STATUSES E))"

definition targets :: "registry \<Rightarrow> string list \<Rightarrow> node list" where
  "targets db posted = filter (\<lambda>n. system_id n \<in> set posted) db"

section \<open>Accepting enlisted nodes (NodesHandler.accept)\<close>

text \<open>
  Modelled from the spec: \<open>Node.accept_enlistment\<close> (maasserver.models.node, not in
  the repository). Section 4.1: legal only from NEW; sets the status to COMMISSIONING and
  returns the node; re-accepting an already accepted node is a no-op that returns no
  change (null), not an error; any other status is an invalid transition. The
  specification does not enumerate the statuses that count as already accepted: they are
  the list \<open>ACCEPTED_STATUSES\<close>. The permission the specification asks for is the
  one \<open>NodesHandler.accept\<close> has already required when it listed the nodes.
  The result is the value returned (or the exception) and the registry as the call
  leaves it.
\<close>

definition accept_enlistment ::
    "env \<Rightarrow> user \<Rightarrow> node \<Rightarrow> registry \<Rightarrow> (error + node option) \<times> registry" where
  "accept_enlistment E u n db =
     (if status n = NODE_STATUS E NEW
      then (Inr (Some (n\<lparr>status := NODE_STATUS E COMMISSIONING\<rparr>)),
            save db (n\<lparr>status := NODE_STATUS E COMMISSIONING\<rparr>))
      else if status n \<in> set (ACCEPTED_STATUSES E) then (Inr None, db)
      else (Inl (NodeStateViolation (system_id n)), db))"

text \<open>The list comprehension \<open>[node.accept_enlistment(request.user) for node in nodes]\<close>:
  the first exception ends it, and the nodes accepted before it stay accepted.\<close>

fun accept_each ::
    "env \<Rightarrow> user \<Rightarrow> node list \<Rightarrow> registry \<Rightarrow> (error + node option list) \<times> registry" where
  "accept_each E u [] db = (Inr [], db)"
| "accept_each E u (n # ns) db =
     (case accept_enlistment E u n db of
        (Inl e, db1) \<Rightarrow> (Inl e, db1)
      | (Inr r, db1) \<Rightarrow>
          (case accept_each E u ns db1 of
             (Inl e, db') \<Rightarrow> (Inl e, db')
           | (Inr rs, db') \<Rightarrow> (Inr (r # rs), db')))"

text \<open>Python's \<open>filter(None, xs)\<close> on a list of nodes and \<open>None\<close>s.\<close>

fun filter_None :: "'a option list \<Rightarrow> 'a list" where
  "filter_None [] = []"
| "filter_None (None # rs) = filter_None rs"
| "filter_None (Some x # rs) = x # filter_None rs"

definition accept_denied :: "string list \<Rightarrow> string" where
  "accept_denied ids =
     ''You don'' @ [CHR 0x27] @ ''t have the required permission to accept the ''
       @ ''following node(s): '' @ join '', '' ids @ ''.''"

definition NodesHandler_accept ::
    "env \<Rightarrow> registry \<Rightarrow> user \<Rightarrow> string list \<Rightarrow> (error + node list) \<times> registry" where
  "NodesHandler_accept E db u posted =
     (let system_ids = remdups posted in
      case check_system_ids_exist E db system_ids of
        Inl e \<Rightarrow> (Inl e, db)
      | Inr _ \<Rightarrow>
          let nodes = get_nodes E db u ADMIN system_ids in
          if length nodes < length system_ids
          then
            let permitted_ids = remdups (map system_id nodes)
            in (Inl (PermissionDenied
                     (accept_denied (set_order E (set_minus system_ids permitted_ids)))), db)
          else
            case accept_each E u nodes db of
              (r, db') \<Rightarrow>
                (case r of
                   Inl e \<Rightarrow> (Inl e, db')
                 | Inr rs \<Rightarrow> (Inr (filter_None rs), db')))"

section \<open>Acquiring a node (NodesHandler.acquire)\<close>

text \<open>
  Modelled from the spec: \<open>AcquireNodeForm\<close>
  (maasserver.node_constraint_filter_forms, not in the repository), that is the
  constraint set of section 3 and the constraint matcher of section 4.2. Every field
  is optional; a multi-valued field that was not given is the empty list. A network is
  named, or given by an address inside it, or by its VLAN tag. The agent name is not
  part of the form: the handler reads it from the request beside it.
\<close>

datatype net_spec = NetName string | NetIP nat | NetVlan nat

record constraints =
  c_name :: "string option"
  c_arch :: "string option"
  c_cpu_count :: "nat option"
  c_mem :: "nat option"
  c_tags :: "string list"
  c_not_tags :: "string list"
  c_networks :: "net_spec list"
  c_not_networks :: "net_spec list"
  c_connected_to :: "string list"
  c_not_connected_to :: "string list"
  c_zone :: "string option"
  c_not_in_zone :: "string list"

fun on_network :: "net_spec \<Rightarrow> network \<Rightarrow> bool" where
  "on_network (NetName s) w = (net_name w = s)"
| "on_network (NetIP a) w =
     (a div 2 ^ (32 - net_prefix w) = net_base w div 2 ^ (32 - net_prefix w))"
| "on_network (NetVlan t) w = (net_vlan w = t)"

text \<open>Modelled from the spec: section 4.2. Each field that is present narrows the
  candidates, the fields combine by AND, numeric minimums compare with \<open>\<ge>\<close>, tag,
  network and router constraints are membership tests and their \<open>not_\<close> variants
  exclusion tests; the filter keeps the order of its input.\<close>

definition matches :: "constraints \<Rightarrow> node \<Rightarrow> bool" where
  "matches c n =
     ((case c_name c of None \<Rightarrow> True | Some h \<Rightarrow> hostname n = h)
      \<and> (case c_arch c of None \<Rightarrow> True | Some a \<Rightarrow> architecture n = a)
      \<and> (case c_cpu_count c of None \<Rightarrow> True | Some k \<Rightarrow> cpu_count n \<ge> k)
      \<and> (case c_mem c of None \<Rightarrow> True | Some k \<Rightarrow> memory n \<ge> k)
      \<and> list_all (\<lambda>t. t \<in> set (tags n)) (c_tags c)
      \<and> list_all (\<lambda>t. t \<notin> set (tags n)) (c_not_tags c)
      \<and> list_all (\<lambda>s. list_ex (on_network s) (networks n)) (c_networks c)
      \<and> list_all (\<lambda>s. \<not> list_ex (on_network s) (networks n)) (c_not_networks c)
      \<and> list_all (\<lambda>r. r \<in> set (routers n)) (c_connected_to c)
      \<and> list_all (\<lambda>r. r \<notin> set (routers n)) (c_not_connected_to c)
      \<and> (case c_zone c of None \<Rightarrow> True | Some z \<Rightarrow> zone n = z)
      \<and> zone n \<notin> set (c_not_in_zone c))"

definition filter_nodes :: "constraints \<Rightarrow> node list \<Rightarrow> node list" where
  "filter_nodes c nodes = filter (matches c) nodes"

text \<open>Decimal rendering of a number, and of an address as a dotted quad.\<close>

definition digit :: "nat \<Rightarrow> char" where
  "digit d = ''0123456789'' ! d"

function show_nat :: "nat \<Rightarrow> string" where
  "show_nat n =
     (if n < 10 then [digit n]
      else show_nat (n div 10) @ [digit (n mod 10)])"
  by pat_completeness auto
termination
  by (relation "measure (\<lambda>n. n)") auto

declare show_nat.simps [simp del]

definition show_ip :: "nat \<Rightarrow> string" where
  "show_ip a =
     join ''.'' [show_nat (a div 2 ^ 24 mod 256), show_nat (a div 2 ^ 16 mod 256),
                 show_nat (a div 2 ^ 8 mod 256), show_nat (a mod 256)]"

fun show_net :: "net_spec \<Rightarrow> string" where
  "show_net (NetName s) = s"
| "show_net (NetIP a) = ''ip:'' @ show_ip a"
| "show_net (NetVlan t) = ''vlan:'' @ show_nat t"

text \<open>Modelled from the spec: the form's validation. Section 4.2: a VLAN tag must lie
  within 1 to 4095 inclusive, and a tag out of range fails the whole request.\<close>

fun vlan_ok :: "net_spec \<Rightarrow> bool" where
  "vlan_ok (NetVlan t) = (1 \<le> t \<and> t \<le> 4095)"
| "vlan_ok _ = True"

definition form_errors :: "constraints \<Rightarrow> string list" where
  "form_errors c =
     map (\<lambda>s. ''Invalid VLAN tag: '' @ show_net s)
       (filter (\<lambda>s. \<not> vlan_ok s) (c_networks c @ c_not_networks c))"

definition is_valid :: "constraints \<Rightarrow> bool" where
  "is_valid c = (form_errors c = [])"

text \<open>Modelled from the spec: \<open>describe_constraints\<close>. Section 4.3: a
  human-readable rendering of the constraints that were applied, the empty string when
  no constraints were given and a descriptive clause otherwise. Each given field renders
  as \<open>name=value\<close>, a multi-valued one with its values separated by commas, and the
  clauses are separated by spaces.\<close>

definition describe_single :: "string \<Rightarrow> string option \<Rightarrow> string list" where
  "describe_single name v = (case v of None \<Rightarrow> [] | Some x \<Rightarrow> [name @ ''='' @ x])"

definition describe_multi :: "string \<Rightarrow> string list \<Rightarrow> string list" where
  "describe_multi name xs = (if xs = [] then [] else [name @ ''='' @ join '','' xs])"

definition constraint_clauses :: "constraints \<Rightarrow> string list" where
  "constraint_clauses c =
     describe_single ''arch'' (c_arch c)
     @ describe_multi ''connected_to'' (c_connected_to c)
     @ describe_single ''cpu_count'' (map_option show_nat (c_cpu_count c))
     @ describe_single ''mem'' (map_option show_nat (c_mem c))
     @ describe_single ''name'' (c_name c)
     @ describe_multi ''networks'' (map show_net (c_networks c))
     @ describe_multi ''not_connected_to'' (c_not_connected_to c)
     @ describe_multi ''not_in_zone'' (c_not_in_zone c)
     @ describe_multi ''not_networks'' (map show_net (c_not_networks c))
     @ describe_multi ''not_tags'' (c_not_tags c)
     @ describe_multi ''tags'' (c_tags c)
     @ describe_single ''zone'' (c_zone c)"

definition describe_constraints :: "constraints \<Rightarrow> string" where
  "describe_constraints c = join '' '' (constraint_clauses c)"

text \<open>No constraint was given: every field of the form is absent.\<close>

definition no_constraints :: "constraints \<Rightarrow> bool" where
  "no_constraints c =
     (c_name c = None \<and> c_arch c = None \<and> c_cpu_count c = None \<and> c_mem c = None
      \<and> c_tags c = [] \<and> c_not_tags c = [] \<and> c_networks c = [] \<and> c_not_networks c = []
      \<and> c_connected_to c = [] \<and> c_not_connected_to c = [] \<and> c_zone c = None
      \<and> c_not_in_zone c = [])"

text \<open>Modelled from the spec: \<open>Node.objects.get_available_nodes_for_acquisition\<close>
  (section 4.3: the nodes with status READY, visible to the requester, not already
  owned, in the registry's order), \<open>get_first\<close> (maasserver.utils.orm: the first
  element, or \<open>None\<close>) and \<open>Node.acquire\<close> (section 4.3: sets the owner to the
  requester and the status to ALLOCATED, and stamps the agent name if one was
  supplied).\<close>

definition get_available_nodes_for_acquisition :: "env \<Rightarrow> registry \<Rightarrow> user \<Rightarrow> node list" where
  "get_available_nodes_for_acquisition E db u =
     filter (\<lambda>n. status n = NODE_STATUS E READY \<and> has_perm E u VIEW n \<and> owner n = None) db"

definition get_first :: "'a list \<Rightarrow> 'a option" where
  "get_first xs = (case xs of [] \<Rightarrow> None | x # _ \<Rightarrow> Some x)"

definition acquire :: "env \<Rightarrow> node \<Rightarrow> user \<Rightarrow> string \<Rightarrow> string \<Rightarrow> node" where
  "acquire E n u tok a =
     n\<lparr>owner := Some u, status := NODE_STATUS E ALLOCATED,
       agent_name := (if a = [] then agent_name n else a)\<rparr>"

text \<open>The handler. \<open>locks.node_acquire\<close> serialises the calls; one call runs from the
  query to the save without another in between, which is what a function on the
  registry expresses.\<close>

definition NodesHandler_acquire ::
    "env \<Rightarrow> registry \<Rightarrow> user \<Rightarrow> string \<Rightarrow> constraints \<Rightarrow> string option
       \<Rightarrow> (error + node) \<times> registry" where
  "NodesHandler_acquire E db u tok form agent =
     (if \<not> is_valid form then (Inl (ValidationError (form_errors form)), db)
      else
        let nodes = get_available_nodes_for_acquisition E db u;
            nodes = filter_nodes form nodes
        in case get_first nodes of
             None \<Rightarrow>
               let constraints = describe_constraints form;
                   message =
                     (if constraints = [] then ''No node available.''
                      else ''No available node matches constraints: '' @ constraints)
               in (Inl (NodesNotAvailable message), db)
           | Some n \<Rightarrow>
               let agent_name = str_of agent;
                   n' = acquire E n u tok agent_name
               in (Inr n', save db n'))"

section \<open>Creating a node (create_node, store_node_power_parameters)\<close>

definition has_slash :: "string \<Rightarrow> bool" where
  "has_slash a = (CHR ''/'' \<in> set a)"

text \<open>The first block of \<open>create_node\<close>: the architecture of the submitted data is
  put into its \<open>arch/subarch\<close> form, or the request is refused.\<close>

definition create_node_architecture :: "request \<Rightarrow> error + (string \<rightharpoonup> string)" where
  "create_node_architecture req =
     (let given_arch = data req ''architecture'';
          given_subarch = data req ''subarchitecture'';
          altered_query_data = data req
      in if given given_arch \<and> has_slash (str_of given_arch)
         then (if given given_subarch
               then Inl (ValidationError [''Subarchitecture cannot be specified twice.''])
               else Inr altered_query_data)
         else if given given_arch
         then (if given given_subarch
               then Inr ((altered_query_data
                           (''architecture'' \<mapsto>
                              join ''/'' [str_of given_arch, str_of given_subarch]))
                           (''subarchitecture'' := None))
               else Inr (altered_query_data
                           (''architecture'' \<mapsto>
                              str_of (altered_query_data ''architecture'') @ ''/generic'')))
         else Inr altered_query_data)"

text \<open>The second block: the node group of the new node.\<close>

definition create_node_nodegroup ::
    "env \<Rightarrow> request \<Rightarrow> (string \<rightharpoonup> string) \<Rightarrow> error + (string \<rightharpoonup> string)" where
  "create_node_nodegroup E req altered_query_data =
     (if altered_query_data ''nodegroup'' = None
      then (if data req ''autodetect_nodegroup'' = None
            then Inl (ValidationError
                   [[CHR 0x27] @ ''autodetect_nodegroup'' @ [CHR 0x27]
                      @ '' must be specified if '' @ [CHR 0x27] @ ''nodegroup'' @ [CHR 0x27]
                      @ '' parameter missing''])
            else (case find_nodegroup E req of
                    None \<Rightarrow> Inr altered_query_data
                  | Some g \<Rightarrow> Inr (altered_query_data (''nodegroup'' \<mapsto> g))))
      else Inr altered_query_data)"

text \<open>Modelled from the spec: the save of the node-creation form
  (\<open>get_node_create_form\<close>, maasserver.forms, not in the repository). Section 3: a
  node is created in status NEW, without an owner, with the attributes that were
  submitted; its architecture is the one of the data the form was given.\<close>

definition form_save :: "env \<Rightarrow> registry \<Rightarrow> (string \<rightharpoonup> string) \<Rightarrow> node" where
  "form_save E db d =
     \<lparr>system_id = new_system_id E db, hostname = str_of (d ''hostname''),
      architecture = str_of (d ''architecture''), cpu_count = 0, memory = 0,
      status = NODE_STATUS E NEW, owner = None, zone = str_of (d ''zone''), tags = [],
      routers = [], networks = [], agent_name = [], nodegroup = d ''nodegroup'',
      power_type = [], power_parameters = []\<rparr>"

text \<open>\<open>unicode.isspace\<close>: the string is not empty and every character is white
  space. A character here is a code point below 256; the white space among these is
  U+0009 to U+000D, U+001C to U+001F, U+0020, U+0085 and U+00A0.\<close>

definition isspace :: "string \<Rightarrow> bool" where
  "isspace x =
     (x \<noteq> [] \<and> list_all (\<lambda>c. c \<in> set [CHR 0x09, CHR 0x0A, CHR 0x0B, CHR 0x0C, CHR 0x0D,
                                           CHR 0x1C, CHR 0x1D, CHR 0x1E, CHR 0x1F, CHR '' '',
                                           CHR 0x85, CHR 0xA0]) x)"

definition store_node_power_parameters ::
    "env \<Rightarrow> registry \<Rightarrow> node \<Rightarrow> request \<Rightarrow> (error + node) \<times> registry" where
  "store_node_power_parameters E db n req =
     (case POST req ''power_type'' of
        None \<Rightarrow> (Inr n, db)
      | Some pt \<Rightarrow>
          if pt \<in> set (get_power_types E (nodegroup n)) \<or> pt = UNKNOWN_POWER_TYPE E
          then
            (let n1 = n\<lparr>power_type := pt\<rparr>;
                 pp = POST req ''power_parameters''
             in if given pp \<and> \<not> isspace (str_of pp)
                then (case json_loads E (str_of pp) of
                        None \<Rightarrow>
                          (Inl (MAASAPIBadRequest ''Failed to parse JSON power_parameters''), db)
                      | Some j \<Rightarrow>
                          (Inr (n1\<lparr>power_parameters := j\<rparr>),
                           save db (n1\<lparr>power_parameters := j\<rparr>)))
                else (Inr n1, save db n1))
          else (Inl (MAASAPIBadRequest
                  (''Bad power_type '' @ [CHR 0x27] @ pt @ [CHR 0x27])), db))"

definition create_node :: "env \<Rightarrow> registry \<Rightarrow> request \<Rightarrow> (error + node) \<times> registry" where
  "create_node E db req =
     (case create_node_architecture req of
        Inl e \<Rightarrow> (Inl e, db)
      | Inr altered_query_data \<Rightarrow>
          (case create_node_nodegroup E req altered_query_data of
             Inl e \<Rightarrow> (Inl e, db)
           | Inr altered_query_data \<Rightarrow>
               if node_form_errors E (req_user req) altered_query_data = []
               then store_node_power_parameters E
                      (db @ [form_save E db altered_query_data])
                      (form_save E db altered_query_data) req
               else (Inl (ValidationError
                       (node_form_errors E (req_user req) altered_query_data)), db)))"


section \<open>A concrete site\<close>

text \<open>One table of values, used where a concrete registry is evaluated: the names
  numbered in the order in which the specification lists them. No theorem below depends
  on this choice other than the evaluations that name it.\<close>

fun listed_status :: "status_name \<Rightarrow> int" where
  "listed_status NEW = 0"
| "listed_status COMMISSIONING = 1"
| "listed_status FAILED_COMMISSIONING = 2"
| "listed_status READY = 3"
| "listed_status RESERVED = 4"
| "listed_status ALLOCATED = 5"
| "listed_status DEPLOYING = 6"
| "listed_status DEPLOYED = 7"
| "listed_status RELEASING = 8"
| "listed_status DISK_ERASING = 9"
| "listed_status FAILED_DEPLOYMENT = 10"
| "listed_status FAILED_RELEASING = 11"
| "listed_status FAILED_DISK_ERASING = 12"
| "listed_status BROKEN = 13"
| "listed_status RETIRED = 14"

definition blank_node :: node where
  "blank_node = \<lparr>system_id = [], hostname = [], architecture = [], cpu_count = 0,
     memory = 0, status = 0, owner = None, zone = [], tags = [], routers = [],
     networks = [], agent_name = [], nodegroup = None,
     power_type = [], power_parameters = []\<rparr>"

text \<open>The collaborators used where a concrete registry is evaluated: the releasable
  group of the specification's section 4.1, a release that clears the owner and leaves
  the node in RELEASING, an administrator who may do everything while any other user
  may view and edit the nodes that are free or their own, COMMISSIONING and READY as
  the statuses of a node that was accepted before, and a set that is iterated from its
  last element to its first.\<close>

definition site :: env where
  "site =
     \<lparr>NODE_STATUS = listed_status,
      RELEASABLE_STATUSES =
        map listed_status
          [ALLOCATED, DEPLOYING, DEPLOYED, FAILED_DEPLOYMENT, DISK_ERASING,
           FAILED_DISK_ERASING, RELEASING, FAILED_RELEASING],
      has_perm = (\<lambda>u p n. u = ''admin''
                    \<or> (p \<noteq> ADMIN \<and> (owner n = None \<or> owner n = Some u))),
      release_or_erase = (\<lambda>n. n\<lparr>owner := None, status := listed_status RELEASING\<rparr>),
      display_status = (\<lambda>n. show_nat (nat (status n))),
      ACCEPTED_STATUSES = map listed_status [COMMISSIONING, READY],
      find_nodegroup = (\<lambda>r. Some ''master''),
      node_form_errors =
        (\<lambda>u d. if d ''architecture'' = None then [''architecture: required''] else []),
      new_system_id = (\<lambda>db. ''node-'' @ show_nat (length db)),
      get_power_types = (\<lambda>g. [''ether_wake'', ''ipmi'', ''virsh'']),
      UNKNOWN_POWER_TYPE = [],
      json_loads = Some,
      set_order = rev\<rparr>"

text \<open>A node with an identifier, a status and an owner, everything else blank.\<close>

definition mk_node :: "string \<Rightarrow> status_name \<Rightarrow> user option \<Rightarrow> node" where
  "mk_node sid s ow = blank_node\<lparr>system_id := sid, status := listed_status s, owner := ow\<rparr>"

text \<open>A registry of three nodes: one free and ready, one deployed for alice, one newly
  enlisted.\<close>

definition pool :: registry where
  "pool = [mk_node ''n1'' READY None, mk_node ''n2'' DEPLOYED (Some ''alice''),
           mk_node ''n3'' NEW None]"

text \<open>The registry of the specification's end-to-end example (section 8), and a
  request for the architecture amd64/generic.\<close>

definition amd64_node :: node where
  "amd64_node = blank_node\<lparr>system_id := ''n1'', status := listed_status READY,
                   architecture := ''amd64/generic'', memory := 2048\<rparr>"

definition i386_node :: node where
  "i386_node = blank_node\<lparr>system_id := ''n2'', status := listed_status READY,
                  architecture := ''i386/generic'', memory := 1024\<rparr>"

definition no_form :: constraints where
  "no_form = \<lparr>c_name = None, c_arch = None, c_cpu_count = None, c_mem = None, c_tags = [],
     c_not_tags = [], c_networks = [], c_not_networks = [], c_connected_to = [],
     c_not_connected_to = [], c_zone = None, c_not_in_zone = []\<rparr>"

definition amd64_form :: constraints where
  "amd64_form = no_form\<lparr>c_arch := Some ''amd64/generic''\<rparr>"






definition twice_request :: request where
  "twice_request =
     \<lparr>data = [''architecture'' \<mapsto> ''i386/generic'', ''subarchitecture'' \<mapsto> ''generic'',
              ''nodegroup'' \<mapsto> ''master''],
      POST = [''architecture'' \<mapsto> ''i386/generic'', ''subarchitecture'' \<mapsto> ''generic'',
              ''nodegroup'' \<mapsto> ''master''],
      req_user = ''alice''\<rparr>"

section \<open>Theorems\<close>

lemma inj_listed_status: "inj listed_status"
proof (rule injI)
  fix x y
  assume "listed_status x = listed_status y"
  then show "x = y" by (cases x; cases y) simp_all
qed

lemmas site_eval = site_def pool_def mk_node_def blank_node_def digit_def show_nat.simps

lemma pool_distinct: "distinct (map system_id pool)"
  by (simp add: site_eval)

subsection \<open>The status views\<close>

text \<open>
  C1, as the code has it: the coarse view sends every status of the group
  ALLOCATED, DEPLOYING, DEPLOYED, FAILED_DEPLOYMENT and every status of the group
  RELEASING, DISK_ERASING, FAILED_RELEASING, FAILED_DISK_ERASING to the one value 6,
  the same for both groups; a status outside the two groups is shown unchanged.
\<close>

theorem status_folds_both_groups:
  assumes "inj (NODE_STATUS E)"
  shows "(\<forall>s \<in> set (allocated_group @ releasing_group).
            NodeHandler_status E (n\<lparr>status := NODE_STATUS E s\<rparr>) = 6)
       \<and> (\<forall>s. s \<notin> set (allocated_group @ releasing_group) \<longrightarrow>
            NodeHandler_status E (n\<lparr>status := NODE_STATUS E s\<rparr>) = NODE_STATUS E s)"
proof -
  have "\<And>s t. NODE_STATUS E s = NODE_STATUS E t \<longleftrightarrow> s = t"
    using assms by (auto dest: injD)
  then show ?thesis
    by (auto simp: NodeHandler_status_def allocated_group_def releasing_group_def)
qed

theorem status_folds_both_groups_witness:
  "inj (NODE_STATUS site)
   \<and> NodeHandler_status site (blank_node\<lparr>status := NODE_STATUS site RELEASING\<rparr>) = 6
   \<and> NodeHandler_status site (blank_node\<lparr>status := NODE_STATUS site ALLOCATED\<rparr>) = 6
   \<and> NodeHandler_status site (blank_node\<lparr>status := NODE_STATUS site NEW\<rparr>)
       = NODE_STATUS site NEW"
proof -
  have i: "inj (NODE_STATUS site)" by (simp add: site_def inj_listed_status)
  note h = status_folds_both_groups [OF i, of blank_node]
  from h have g: "\<And>s. s \<in> set (allocated_group @ releasing_group) \<Longrightarrow>
      NodeHandler_status site (blank_node\<lparr>status := NODE_STATUS site s\<rparr>) = 6"
    by blast
  from h have o: "\<And>s. s \<notin> set (allocated_group @ releasing_group) \<Longrightarrow>
      NodeHandler_status site (blank_node\<lparr>status := NODE_STATUS site s\<rparr>)
        = NODE_STATUS site s"
    by blast
  have "NodeHandler_status site (blank_node\<lparr>status := NODE_STATUS site NEW\<rparr>)
          = NODE_STATUS site NEW"
    by (rule o) (simp add: allocated_group_def releasing_group_def)
  moreover have
    "NodeHandler_status site (blank_node\<lparr>status := NODE_STATUS site RELEASING\<rparr>) = 6"
    by (rule g) (simp add: allocated_group_def releasing_group_def)
  moreover have
    "NodeHandler_status site (blank_node\<lparr>status := NODE_STATUS site ALLOCATED\<rparr>) = 6"
    by (rule g) (simp add: allocated_group_def releasing_group_def)
  ultimately show ?thesis using i by blast
qed

text \<open>
  C1 as the specification states it asks for two distinct values, one for each group.
  For a node in RELEASING and a node in ALLOCATED the coarse view gives the same value.
\<close>

theorem status_groups_distinct_counterexample:
  "\<not> (NodeHandler_status site (mk_node ''n1'' RELEASING (Some ''alice''))
       \<noteq> NodeHandler_status site (mk_node ''n2'' ALLOCATED (Some ''alice'')))"
  by (simp add: NodeHandler_status_def mk_node_def site_def)

text \<open>
  C7: the substatus view is the stored status, for every value of the enumeration (and
  for whatever integer the column holds).
\<close>

theorem substatus_is_stored_status:
  "NodeHandler_substatus n = status n
   \<and> NodeHandler_substatus (n\<lparr>status := NODE_STATUS E s\<rparr>) = NODE_STATUS E s"
  by (simp add: NodeHandler_substatus_def)

subsection \<open>Releasing one node\<close>

text \<open>
  C2: for a node the user may edit, release returns the node and leaves the registry as
  it was when the node is READY; it performs \<open>release_or_erase\<close> and saves the node
  when the status is in the releasable list; for every other status it raises
  NodeStateViolation and leaves the registry as it was.
\<close>

theorem release_one_node:
  assumes "get_node_or_404 E db sid u EDIT = Inr n"
  shows "(status n = NODE_STATUS E READY \<longrightarrow>
            NodeHandler_release E db u sid = (Inr n, db))
       \<and> (status n \<noteq> NODE_STATUS E READY \<and> status n \<in> set (RELEASABLE_STATUSES E) \<longrightarrow>
            NodeHandler_release E db u sid
              = (Inr (release_or_erase E n), save db (release_or_erase E n)))
       \<and> (status n \<noteq> NODE_STATUS E READY \<and> status n \<notin> set (RELEASABLE_STATUSES E) \<longrightarrow>
            NodeHandler_release E db u sid
              = (Inl (NodeStateViolation (release_message E n)), db))"
  using assms by (simp add: NodeHandler_release_def)

theorem release_one_node_witness:
  "get_node_or_404 site pool ''n1'' ''alice'' EDIT = Inr (mk_node ''n1'' READY None)
   \<and> NodeHandler_release site pool ''alice'' ''n1'' = (Inr (mk_node ''n1'' READY None), pool)
   \<and> get_node_or_404 site pool ''n2'' ''alice'' EDIT = Inr (mk_node ''n2'' DEPLOYED (Some ''alice''))
   \<and> NodeHandler_release site pool ''alice'' ''n2''
       = (Inr (mk_node ''n2'' RELEASING None),
          [mk_node ''n1'' READY None, mk_node ''n2'' RELEASING None, mk_node ''n3'' NEW None])
   \<and> get_node_or_404 site pool ''n3'' ''alice'' EDIT = Inr (mk_node ''n3'' NEW None)
   \<and> NodeHandler_release site pool ''alice'' ''n3''
       = (Inl (NodeStateViolation
            (''Node cannot be released in its current state ('' @ [CHR 0x27] @ ''0''
               @ [CHR 0x27] @ '').'')), pool)"
proof -
  have g1: "get_node_or_404 site pool ''n1'' ''alice'' EDIT = Inr (mk_node ''n1'' READY None)"
    by (simp add: get_node_or_404_def site_eval)
  have g2: "get_node_or_404 site pool ''n2'' ''alice'' EDIT
              = Inr (mk_node ''n2'' DEPLOYED (Some ''alice''))"
    by (simp add: get_node_or_404_def site_eval)
  have g3: "get_node_or_404 site pool ''n3'' ''alice'' EDIT = Inr (mk_node ''n3'' NEW None)"
    by (simp add: get_node_or_404_def site_eval)
  have r1: "NodeHandler_release site pool ''alice'' ''n1'' = (Inr (mk_node ''n1'' READY None), pool)"
    using release_one_node [OF g1] by (simp add: site_eval)
  have r2: "NodeHandler_release site pool ''alice'' ''n2''
       = (Inr (mk_node ''n2'' RELEASING None),
          [mk_node ''n1'' READY None, mk_node ''n2'' RELEASING None, mk_node ''n3'' NEW None])"
    using release_one_node [OF g2] by (simp add: site_eval save_def)
  have r3: "NodeHandler_release site pool ''alice'' ''n3''
       = (Inl (NodeStateViolation
            (''Node cannot be released in its current state ('' @ [CHR 0x27] @ ''0''
               @ [CHR 0x27] @ '').'')), pool)"
    using release_one_node [OF g3] by (simp add: site_eval release_message_def)
  show ?thesis using g1 g2 g3 r1 r2 r3 by blast
qed

subsection \<open>Releasing many nodes\<close>

lemma check_unknown:
  assumes "\<not> set ids \<subseteq> system_id ` set db"
  shows "check_system_ids_exist E db ids
           = Inl (MAASAPIBadRequest (''Unknown node(s): ''
                @ join '', '' (set_order E (filter (\<lambda>i. i \<notin> system_id ` set db) ids))
                @ ''.''))"
proof -
  have ne: "ids \<noteq> []" using assms by auto
  have eq: "set_minus ids (remdups (map system_id (filter (\<lambda>n. system_id n \<in> set ids) db)))
          = filter (\<lambda>i. i \<notin> system_id ` set db) ids"
    unfolding set_minus_def by (rule filter_cong) auto
  have "filter (\<lambda>i. i \<notin> system_id ` set db) ids \<noteq> []"
    using assms by (auto simp: filter_empty_conv)
  then show ?thesis using ne eq
    by (simp add: check_system_ids_exist_def Let_def)
qed

lemma check_known:
  assumes "set ids \<subseteq> system_id ` set db"
  shows "check_system_ids_exist E db ids = Inr ()"
proof -
  have "set_minus ids (remdups (map system_id (filter (\<lambda>n. system_id n \<in> set ids) db))) = []"
    unfolding set_minus_def using assms by (auto simp: filter_empty_conv)
  then show ?thesis by (simp add: check_system_ids_exist_def Let_def)
qed

lemma get_nodes_length:
  assumes d: "distinct (map system_id db)" and di: "distinct ids"
    and sub: "set ids \<subseteq> system_id ` set db"
  shows "length (get_nodes E db u p ids) < length ids
           \<longleftrightarrow> (\<exists>n \<in> set db. system_id n \<in> set ids \<and> \<not> has_perm E u p n)"
proof -
  let ?ns = "get_nodes E db u p ids"
  have dn: "distinct (map system_id ?ns)"
    unfolding get_nodes_def using d by (rule distinct_map_filter)
  have len: "length ?ns = card (set (map system_id ?ns))"
    using dn by (metis distinct_card length_map)
  have leni: "length ids = card (set ids)" using di by (simp add: distinct_card)
  have subs: "set (map system_id ?ns) \<subseteq> set ids" by (auto simp: get_nodes_def)
  have inj: "inj_on system_id (set db)" using d by (simp add: distinct_map)
  show ?thesis
  proof
    assume "length ?ns < length ids"
    then have "set (map system_id ?ns) \<noteq> set ids" using len leni by auto
    then obtain i where i: "i \<in> set ids" "i \<notin> set (map system_id ?ns)" using subs by auto
    then obtain n where n: "n \<in> set db" "system_id n = i" using sub by auto
    then have "\<not> has_perm E u p n" using i by (auto simp: get_nodes_def)
    then show "\<exists>n \<in> set db. system_id n \<in> set ids \<and> \<not> has_perm E u p n"
      using n i by auto
  next
    assume "\<exists>n \<in> set db. system_id n \<in> set ids \<and> \<not> has_perm E u p n"
    then obtain n where n: "n \<in> set db" "system_id n \<in> set ids" "\<not> has_perm E u p n"
      by auto
    have "system_id n \<notin> set (map system_id ?ns)"
    proof
      assume "system_id n \<in> set (map system_id ?ns)"
      then obtain m where m: "m \<in> set db" "has_perm E u p m" "system_id m = system_id n"
        by (auto simp: get_nodes_def)
      then have "m = n" using inj n(1) by (auto dest: inj_onD)
      then show False using m n by simp
    qed
    then have "set (map system_id ?ns) \<subset> set ids" using subs n(2) by auto
    then have "card (set (map system_id ?ns)) < card (set ids)"
      by (simp add: psubset_card_mono)
    then show "length ?ns < length ids" using len leni by simp
  qed
qed

lemma forbidden_ids:
  assumes d: "distinct (map system_id db)" and sub: "set ids \<subseteq> system_id ` set db"
  shows "set_minus ids (remdups (map system_id (get_nodes E db u p ids)))
           = filter (\<lambda>i. \<exists>n \<in> set db. system_id n = i \<and> \<not> has_perm E u p n) ids"
  unfolding set_minus_def
proof (rule filter_cong[OF refl])
  fix i assume i: "i \<in> set ids"
  have inj: "inj_on system_id (set db)" using d by (simp add: distinct_map)
  obtain n where n: "n \<in> set db" "system_id n = i" using sub i by auto
  have "i \<in> set (remdups (map system_id (get_nodes E db u p ids))) \<longleftrightarrow> has_perm E u p n"
  proof
    assume "i \<in> set (remdups (map system_id (get_nodes E db u p ids)))"
    then obtain m where m: "m \<in> set db" "has_perm E u p m" "system_id m = i"
      by (auto simp: get_nodes_def)
    then have "m = n" using inj n by (auto dest: inj_onD)
    then show "has_perm E u p n" using m by simp
  next
    assume "has_perm E u p n"
    then show "i \<in> set (remdups (map system_id (get_nodes E db u p ids)))"
      using n i by (force simp: get_nodes_def)
  qed
  moreover have "(\<exists>m \<in> set db. system_id m = i \<and> \<not> has_perm E u p m) \<longleftrightarrow> \<not> has_perm E u p n"
    using inj n by (auto dest: inj_onD)
  ultimately show "(i \<notin> set (remdups (map system_id (get_nodes E db u p ids))))
        = (\<exists>n \<in> set db. system_id n = i \<and> \<not> has_perm E u p n)" by simp
qed

text \<open>
  C3: in a registry whose identifiers are unique, and with a set iterated element by
  element, a bulk release that names an identifier not in the registry raises the
  bad-request error whose message lists exactly the unknown identifiers; one whose
  identifiers all exist but that names a node the user may not edit raises
  PermissionDenied whose message lists exactly the forbidden identifiers. In both cases
  the registry is left as it was. The order of the identifiers in a message is the
  order of the set's iteration.
\<close>

theorem bulk_release_validates_first:
  assumes "distinct (map system_id db)"
    and "\<forall>xs. distinct xs \<longrightarrow> distinct (set_order E xs) \<and> set (set_order E xs) = set xs"
  shows "(\<not> set posted \<subseteq> system_id ` set db \<longrightarrow>
            (\<exists>ids. NodesHandler_release E db u posted
                     = (Inl (MAASAPIBadRequest
                          (''Unknown node(s): '' @ join '', '' ids @ ''.'')), db)
                 \<and> distinct ids
                 \<and> set ids = set posted - system_id ` set db))
       \<and> (set posted \<subseteq> system_id ` set db
            \<and> (\<exists>n \<in> set db. system_id n \<in> set posted \<and> \<not> has_perm E u EDIT n) \<longrightarrow>
            (\<exists>ids. NodesHandler_release E db u posted
                     = (Inl (PermissionDenied
                          (''You don'' @ [CHR 0x27]
                             @ ''t have the required permission to release the ''
                             @ ''following node(s): '' @ join '', '' ids @ ''.'')), db)
                 \<and> distinct ids
                 \<and> set ids = {system_id n | n. n \<in> set db \<and> system_id n \<in> set posted
                                              \<and> \<not> has_perm E u EDIT n}))"
proof (intro conjI impI)
  assume "\<not> set posted \<subseteq> system_id ` set db"
  then have nsub: "\<not> set (remdups posted) \<subseteq> system_id ` set db" by simp
  let ?ids = "set_order E (filter (\<lambda>i. i \<notin> system_id ` set db) (remdups posted))"
  have dist: "distinct (filter (\<lambda>i. i \<notin> system_id ` set db) (remdups posted))" by simp
  have "NodesHandler_release E db u posted
      = (Inl (MAASAPIBadRequest (''Unknown node(s): '' @ join '', '' ?ids @ ''.'')), db)"
    using check_unknown [OF nsub, of E] by (simp add: NodesHandler_release_def)
  moreover have "distinct ?ids" using assms(2) dist by blast
  moreover have "set ?ids = set posted - system_id ` set db"
  proof -
    have "set ?ids = set (filter (\<lambda>i. i \<notin> system_id ` set db) (remdups posted))"
      using assms(2) dist by blast
    then show ?thesis by auto
  qed
  ultimately show "\<exists>ids. NodesHandler_release E db u posted
                     = (Inl (MAASAPIBadRequest
                          (''Unknown node(s): '' @ join '', '' ids @ ''.'')), db)
                 \<and> distinct ids
                 \<and> set ids = set posted - system_id ` set db"
    by blast
next
  assume a: "set posted \<subseteq> system_id ` set db
     \<and> (\<exists>n \<in> set db. system_id n \<in> set posted \<and> \<not> has_perm E u EDIT n)"
  then have sub: "set (remdups posted) \<subseteq> system_id ` set db" by simp
  have ex: "\<exists>n \<in> set db. system_id n \<in> set (remdups posted) \<and> \<not> has_perm E u EDIT n"
    using a by simp
  have lt: "length (get_nodes E db u EDIT (remdups posted)) < length (remdups posted)"
    using get_nodes_length [OF assms(1) distinct_remdups sub] ex by blast
  let ?f = "filter (\<lambda>i. \<exists>n \<in> set db. system_id n = i \<and> \<not> has_perm E u EDIT n)
              (remdups posted)"
  let ?ids = "set_order E ?f"
  have dist: "distinct ?f" by simp
  have "NodesHandler_release E db u posted
      = (Inl (PermissionDenied
           (''You don'' @ [CHR 0x27] @ ''t have the required permission to release the ''
              @ ''following node(s): '' @ join '', '' ?ids @ ''.'')), db)"
    using check_known [OF sub, of E] lt forbidden_ids [OF assms(1) sub, of E u EDIT]
    by (simp add: NodesHandler_release_def Let_def release_denied_def)
  moreover have "distinct ?ids" using assms(2) dist by blast
  moreover have "set ?ids = {system_id n | n. n \<in> set db \<and> system_id n \<in> set posted
                                              \<and> \<not> has_perm E u EDIT n}"
  proof -
    have "set ?ids = set ?f" using assms(2) dist by blast
    then show ?thesis by auto
  qed
  ultimately show "\<exists>ids. NodesHandler_release E db u posted
                     = (Inl (PermissionDenied
                          (''You don'' @ [CHR 0x27]
                             @ ''t have the required permission to release the ''
                             @ ''following node(s): '' @ join '', '' ids @ ''.'')), db)
                 \<and> distinct ids
                 \<and> set ids = {system_id n | n. n \<in> set db \<and> system_id n \<in> set posted
                                              \<and> \<not> has_perm E u EDIT n}"
    by blast
qed

lemma distinct_singleton:
  assumes "distinct ids" and "set ids = {x}"
  shows "ids = [x]"
proof -
  have "length ids = card (set ids)" using assms(1) by (simp add: distinct_card)
  then have "length ids = Suc 0" using assms(2) by simp
  then obtain y where y: "ids = [y]" by (auto simp: length_Suc_conv)
  then show ?thesis using assms(2) by simp
qed

lemma site_set_order:
  "\<forall>xs. distinct xs \<longrightarrow> distinct (set_order site xs) \<and> set (set_order site xs) = set xs"
  by (simp add: site_def)

theorem bulk_release_validates_first_witness:
  "distinct (map system_id pool)
   \<and> \<not> set [''n1'', ''n9''] \<subseteq> system_id ` set pool
   \<and> NodesHandler_release site pool ''alice'' [''n1'', ''n9'']
       = (Inl (MAASAPIBadRequest ''Unknown node(s): n9.''), pool)
   \<and> set [''n1'', ''n2''] \<subseteq> system_id ` set pool
   \<and> \<not> has_perm site ''bob'' EDIT (mk_node ''n2'' DEPLOYED (Some ''alice''))
   \<and> NodesHandler_release site pool ''bob'' [''n1'', ''n2'']
       = (Inl (PermissionDenied
            (''You don'' @ [CHR 0x27] @ ''t have the required permission to release the ''
               @ ''following node(s): n2.'')), pool)"
proof -
  note a = bulk_release_validates_first
             [OF pool_distinct site_set_order, of "[''n1'', ''n9'']" "''alice''"]
  note b = bulk_release_validates_first
             [OF pool_distinct site_set_order, of "[''n1'', ''n2'']" "''bob''"]
  have u: "\<not> set [''n1'', ''n9''] \<subseteq> system_id ` set pool" by (simp add: site_eval)
  have k: "set [''n1'', ''n2''] \<subseteq> system_id ` set pool" by (simp add: site_eval)
  have np: "\<not> has_perm site ''bob'' EDIT (mk_node ''n2'' DEPLOYED (Some ''alice''))"
    by (simp add: site_eval)
  have f: "\<exists>n \<in> set pool. system_id n \<in> set [''n1'', ''n2''] \<and> \<not> has_perm site ''bob'' EDIT n"
    by (simp add: site_eval)
  have su: "set [''n1'', ''n9''] - system_id ` set pool = {''n9''}"
    by (simp add: site_eval) 
  have "{system_id n | n. n \<in> set pool \<and> system_id n \<in> set [''n1'', ''n2'']
                               \<and> \<not> has_perm site ''bob'' EDIT n}
          = system_id ` set (filter (\<lambda>n. system_id n \<in> set [''n1'', ''n2'']
                                           \<and> \<not> has_perm site ''bob'' EDIT n) pool)"
    by auto
  also have "\<dots> = {''n2''}"
    by (simp add: site_def pool_def mk_node_def blank_node_def)
  finally have sf: "{system_id n | n. n \<in> set pool \<and> system_id n \<in> set [''n1'', ''n2'']
                               \<and> \<not> has_perm site ''bob'' EDIT n} = {''n2''}" .
  from a u obtain ids where
    ia: "NodesHandler_release site pool ''alice'' [''n1'', ''n9'']
           = (Inl (MAASAPIBadRequest (''Unknown node(s): '' @ join '', '' ids @ ''.'')), pool)"
        "distinct ids" "set ids = set [''n1'', ''n9''] - system_id ` set pool"
    by blast
  have "ids = [''n9'']" using distinct_singleton [OF ia(2)] ia(3) su by simp
  then have ra: "NodesHandler_release site pool ''alice'' [''n1'', ''n9'']
       = (Inl (MAASAPIBadRequest ''Unknown node(s): n9.''), pool)"
    using ia(1) by simp
  from b k f obtain ids' where
    ib: "NodesHandler_release site pool ''bob'' [''n1'', ''n2'']
           = (Inl (PermissionDenied
                (''You don'' @ [CHR 0x27] @ ''t have the required permission to release the ''
                   @ ''following node(s): '' @ join '', '' ids' @ ''.'')), pool)"
        "distinct ids'"
        "set ids' = {system_id n | n. n \<in> set pool \<and> system_id n \<in> set [''n1'', ''n2'']
                               \<and> \<not> has_perm site ''bob'' EDIT n}"
    by blast
  have "ids' = [''n2'']" using distinct_singleton [OF ib(2)] ib(3) sf by simp
  then have rb: "NodesHandler_release site pool ''bob'' [''n1'', ''n2'']
       = (Inl (PermissionDenied
            (''You don'' @ [CHR 0x27] @ ''t have the required permission to release the ''
               @ ''following node(s): n2.'')), pool)"
    using ib(1) by simp
  show ?thesis using pool_distinct u k np ra rb by blast
qed

lemma release_loop_lists:
  "release_loop E ns (db, rel, fl)
     = (fold (\<lambda>n d. if to_release E n then save d (release_or_erase E n) else d) ns db,
        rel @ map (\<lambda>n. system_id (release_or_erase E n)) (filter (to_release E) ns),
        fl @ map (failed_entry E) (filter (to_fail E) ns))"
  by (induction ns arbitrary: db rel fl) (auto simp: to_release_def to_fail_def)

lemma fold_save:
  fixes ns :: "node list"
  assumes "distinct (map system_id ns)"
    and "\<forall>n \<in> set ns. system_id (r n) = system_id n"
  shows "fold (\<lambda>n d. if P n then save d (r n) else d) ns cur
           = map (\<lambda>m. case find (\<lambda>n. system_id n = system_id m \<and> P n) ns of
                         None \<Rightarrow> m | Some n \<Rightarrow> r n) cur"
  using assms
proof (induction ns arbitrary: cur)
  case Nil
  then show ?case by simp
next
  case (Cons a ns)
  have d: "distinct (map system_id ns)" and r: "\<forall>n \<in> set ns. system_id (r n) = system_id n"
    and ra: "system_id (r a) = system_id a" and fresh: "system_id a \<notin> system_id ` set ns"
    using Cons.prems by auto
  have "\<not> (\<exists>x. x \<in> set ns \<and> system_id x = system_id a \<and> P x)"
    using fresh by (metis imageI)
  then have nofind: "find (\<lambda>n. system_id n = system_id a \<and> P n) ns = None"
    by (simp add: find_None_iff)
  show ?case
  proof (cases "P a")
    case True
    have "fold (\<lambda>n d. if P n then save d (r n) else d) (a # ns) cur
            = fold (\<lambda>n d. if P n then save d (r n) else d) ns (save cur (r a))"
      using True by simp
    also have "\<dots> = map (\<lambda>m. case find (\<lambda>n. system_id n = system_id m \<and> P n) ns of
                         None \<Rightarrow> m | Some n \<Rightarrow> r n) (save cur (r a))"
      by (rule Cons.IH [OF d r])
    also have "\<dots> = map (\<lambda>m. case find (\<lambda>n. system_id n = system_id m \<and> P n) (a # ns) of
                         None \<Rightarrow> m | Some n \<Rightarrow> r n) cur"
      using True ra nofind by (auto simp: save_def)
    finally show ?thesis .
  next
    case False
    then show ?thesis using Cons.IH [OF d r] by simp
  qed
qed

lemma find_Some_mem: "find P xs = Some x \<Longrightarrow> x \<in> set xs \<and> P x"
  by (induction xs) (auto split: if_splits)

lemma find_target:
  assumes d: "distinct (map system_id db)" and m: "m \<in> set db"
  shows "find (\<lambda>n. system_id n = system_id m \<and> P n) (filter Q db)
           = (if Q m \<and> P m then Some m else None)"
proof -
  have inj: "inj_on system_id (set db)" using d by (simp add: distinct_map)
  show ?thesis
  proof (cases "Q m \<and> P m")
    case True
    then obtain n where n: "find (\<lambda>n. system_id n = system_id m \<and> P n) (filter Q db) = Some n"
      using m by (cases "find (\<lambda>n. system_id n = system_id m \<and> P n) (filter Q db)")
                 (auto simp: find_None_iff)
    then have "n \<in> set db" "system_id n = system_id m"
      by (auto dest: find_Some_mem)
    then have "n = m" using inj m by (auto dest: inj_onD)
    then show ?thesis using n True by simp
  next
    case False
    have "find (\<lambda>n. system_id n = system_id m \<and> P n) (filter Q db) = None"
    proof (simp only: find_None_iff, rule notI)
      assume "\<exists>x. x \<in> set (filter Q db) \<and> system_id x = system_id m \<and> P x"
      then obtain x where x: "x \<in> set db" "Q x" "system_id x = system_id m" "P x" by auto
      then have "x = m" using inj m by (auto dest: inj_onD)
      then show False using x False by simp
    qed
    then show ?thesis using False by simp
  qed
qed

lemma any_str_failed: "any_str (map (failed_entry E) ns) \<longleftrightarrow> ns \<noteq> []"
  by (cases ns) (auto simp: any_str_def failed_entry_def list_ex_iff)

text \<open>
  C4: when every identifier exists and may be edited, each targeted node is handled
  on its own: a READY node is left alone and is no failure, a releasable node is released
  and saved, a node in any other status adds an entry to the failures and the loop goes
  on. The call raises NodeStateViolation listing every failure exactly when there is
  one, and the registry it leaves has every releasable targeted node released even then.
\<close>

theorem bulk_release_partial:
  assumes d: "distinct (map system_id db)"
    and known: "set posted \<subseteq> system_id ` set db"
    and permitted: "\<forall>n \<in> set db. system_id n \<in> set posted \<longrightarrow> has_perm E u EDIT n"
    and keeps_id: "\<forall>n \<in> set db. system_id (release_or_erase E n) = system_id n"
  shows "NodesHandler_release E db u posted
           = (if filter (to_fail E) (targets db posted) = []
              then Inr (map system_id (filter (to_release E) (targets db posted)))
              else Inl (NodeStateViolation
                     (''Node(s) cannot be released in their current state: ''
                        @ join '', '' (map (failed_entry E) (filter (to_fail E) (targets db posted)))
                        @ ''.'')),
              map (\<lambda>n. if system_id n \<in> set posted \<and> to_release E n
                        then release_or_erase E n else n) db)"
proof -
  have sub: "set (remdups posted) \<subseteq> system_id ` set db" using known by simp
  have nodes: "get_nodes E db u EDIT (remdups posted) = targets db posted"
    unfolding get_nodes_def targets_def using permitted by (intro filter_cong) auto
  have nlt: "\<not> length (get_nodes E db u EDIT (remdups posted)) < length (remdups posted)"
    using get_nodes_length [OF d distinct_remdups sub, of E u EDIT] permitted by auto
  have dt: "distinct (map system_id (targets db posted))"
    unfolding targets_def using d by (rule distinct_map_filter)
  have kt: "\<forall>n \<in> set (targets db posted). system_id (release_or_erase E n) = system_id n"
    using keeps_id by (auto simp: targets_def)
  have dbpart: "fold (\<lambda>n d. if to_release E n then save d (release_or_erase E n) else d)
                  (targets db posted) db
                = map (\<lambda>n. if system_id n \<in> set posted \<and> to_release E n
                        then release_or_erase E n else n) db"
    unfolding fold_save [OF dt kt]
    by (rule map_cong [OF refl]) (simp add: targets_def find_target [OF d])
  have ids: "map (\<lambda>n. system_id (release_or_erase E n))
               (filter (to_release E) (targets db posted))
             = map system_id (filter (to_release E) (targets db posted))"
    using kt by (intro map_cong) auto
  show ?thesis
    using check_known [OF sub] nlt
    by (simp add: NodesHandler_release_def Let_def nodes release_loop_lists dbpart
          any_str_failed ids)
qed

theorem bulk_release_partial_witness:
  "distinct (map system_id pool)
   \<and> set [''n1'', ''n2'', ''n3''] \<subseteq> system_id ` set pool
   \<and> list_all (has_perm site ''alice'' EDIT) pool
   \<and> map (system_id \<circ> release_or_erase site) pool = map system_id pool
   \<and> NodesHandler_release site pool ''alice'' [''n1'', ''n2'', ''n3'']
       = (Inl (NodeStateViolation
            (''Node(s) cannot be released in their current state: n3 (''
               @ [CHR 0x27] @ ''0'' @ [CHR 0x27] @ '').'')),
          [mk_node ''n1'' READY None, mk_node ''n2'' RELEASING None, mk_node ''n3'' NEW None])
   \<and> NodesHandler_release site pool ''alice'' [''n1'', ''n2'']
       = (Inr [''n2''],
          [mk_node ''n1'' READY None, mk_node ''n2'' RELEASING None, mk_node ''n3'' NEW None])"
proof -
  have k: "set [''n1'', ''n2'', ''n3''] \<subseteq> system_id ` set pool" by (simp add: site_eval)
  have k2: "set [''n1'', ''n2''] \<subseteq> system_id ` set pool" by (simp add: site_eval)
  have p: "\<forall>n \<in> set pool. system_id n \<in> set [''n1'', ''n2'', ''n3'']
             \<longrightarrow> has_perm site ''alice'' EDIT n"
    by (simp add: site_eval)
  have p2: "\<forall>n \<in> set pool. system_id n \<in> set [''n1'', ''n2'']
             \<longrightarrow> has_perm site ''alice'' EDIT n"
    by (simp add: site_eval)
  have i: "\<forall>n \<in> set pool. system_id (release_or_erase site n) = system_id n"
    by (simp add: site_eval)
  have "NodesHandler_release site pool ''alice'' [''n1'', ''n2'', ''n3'']
       = (Inl (NodeStateViolation
            (''Node(s) cannot be released in their current state: n3 (''
               @ [CHR 0x27] @ ''0'' @ [CHR 0x27] @ '').'')),
          [mk_node ''n1'' READY None, mk_node ''n2'' RELEASING None, mk_node ''n3'' NEW None])"
    unfolding bulk_release_partial [OF pool_distinct k p i]
    by (simp add: site_eval targets_def to_fail_def to_release_def failed_entry_def)
  moreover have "NodesHandler_release site pool ''alice'' [''n1'', ''n2'']
       = (Inr [''n2''],
          [mk_node ''n1'' READY None, mk_node ''n2'' RELEASING None, mk_node ''n3'' NEW None])"
    unfolding bulk_release_partial [OF pool_distinct k2 p2 i]
    by (simp add: site_eval targets_def to_fail_def to_release_def failed_entry_def)
  moreover have "list_all (has_perm site ''alice'' EDIT) pool"
    by (simp add: site_eval)
  moreover have "map (system_id \<circ> release_or_erase site) pool = map system_id pool"
    by (simp add: site_eval)
  ultimately show ?thesis using pool_distinct k by blast
qed

subsection \<open>Acquiring a node\<close>

lemma join_empty:
  "\<forall>x \<in> set xs. x \<noteq> [] \<Longrightarrow> join sep xs = [] \<longleftrightarrow> xs = []"
  by (induction sep xs rule: join.induct) auto

lemma single_ne: "x \<in> set (describe_single name v) \<Longrightarrow> x \<noteq> []"
  by (cases v) (simp_all add: describe_single_def)

lemma multi_ne: "x \<in> set (describe_multi name xs) \<Longrightarrow> x \<noteq> []"
  by (cases "xs = []") (simp_all add: describe_multi_def)

lemma single_empty: "describe_single name v = [] \<longleftrightarrow> v = None"
  by (cases v) (simp_all add: describe_single_def)

lemma multi_empty: "describe_multi name xs = [] \<longleftrightarrow> xs = []"
  by (simp add: describe_multi_def)

lemma clauses_nonempty: "\<forall>x \<in> set (constraint_clauses c). x \<noteq> []"
  unfolding constraint_clauses_def set_append
  by (blast dest: single_ne multi_ne)

lemma clauses_empty: "constraint_clauses c = [] \<longleftrightarrow> no_constraints c"
  unfolding constraint_clauses_def no_constraints_def append_is_Nil_conv
    single_empty multi_empty map_is_Nil_conv option.map_disc_iff
  by blast

lemma describe_empty: "describe_constraints c = [] \<longleftrightarrow> no_constraints c"
  unfolding describe_constraints_def
  using join_empty [OF clauses_nonempty] clauses_empty by blast

lemmas acquire_eval = is_valid_def form_errors_def filter_nodes_def matches_def
  get_available_nodes_for_acquisition_def site_def amd64_node_def i386_node_def
  amd64_form_def no_form_def blank_node_def

text \<open>
  C5: when the form is valid and no available node matches it, acquire raises
  NodesNotAvailable and leaves the registry, hence every owner and status, as it was.
  The message carries the rendering of the constraints, and the rendering is empty
  exactly when no constraint was given, in which case the message says that no node is
  available at all.
\<close>

theorem acquire_no_match:
  assumes "is_valid form"
    and "filter_nodes form (get_available_nodes_for_acquisition E db u) = []"
  shows "NodesHandler_acquire E db u tok form agent
           = (Inl (NodesNotAvailable
                (if describe_constraints form = [] then ''No node available.''
                 else ''No available node matches constraints: '' @ describe_constraints form)),
              db)
       \<and> (describe_constraints form = [] \<longleftrightarrow> no_constraints form)"
  using assms by (simp add: NodesHandler_acquire_def get_first_def describe_empty)

theorem acquire_no_match_witness:
  "is_valid amd64_form
   \<and> filter_nodes amd64_form (get_available_nodes_for_acquisition site [i386_node] ''alice'') = []
   \<and> NodesHandler_acquire site [i386_node] ''alice'' ''token'' amd64_form None
       = (Inl (NodesNotAvailable ''No available node matches constraints: arch=amd64/generic''),
          [i386_node])
   \<and> \<not> no_constraints amd64_form
   \<and> is_valid no_form
   \<and> NodesHandler_acquire site [] ''alice'' ''token'' no_form None
       = (Inl (NodesNotAvailable ''No node available.''), [])
   \<and> no_constraints no_form"
proof -
  have v: "is_valid amd64_form" by (simp add: acquire_eval)
  have f: "filter_nodes amd64_form
             (get_available_nodes_for_acquisition site [i386_node] ''alice'') = []"
    by (simp add: acquire_eval)
  have v0: "is_valid no_form" by (simp add: acquire_eval)
  have f0: "filter_nodes no_form (get_available_nodes_for_acquisition site [] ''alice'') = []"
    by (simp add: acquire_eval)
  have d: "describe_constraints amd64_form = ''arch=amd64/generic''"
    by (simp add: describe_constraints_def constraint_clauses_def describe_single_def
          describe_multi_def amd64_form_def no_form_def)
  have n0: "no_constraints no_form" by (simp add: no_constraints_def no_form_def)
  note a = acquire_no_match [OF v f, of "''token''" None]
  note b = acquire_no_match [OF v0 f0, of "''token''" None]
  have "NodesHandler_acquire site [i386_node] ''alice'' ''token'' amd64_form None
       = (Inl (NodesNotAvailable ''No available node matches constraints: arch=amd64/generic''),
          [i386_node])"
    using a by (simp add: d)
  moreover have "\<not> no_constraints amd64_form" using a by (simp add: d)
  moreover have "NodesHandler_acquire site [] ''alice'' ''token'' no_form None
       = (Inl (NodesNotAvailable ''No node available.''), [])"
    using b n0 by simp
  ultimately show ?thesis using v f v0 n0 by blast
qed




subsection \<open>Accepting enlisted nodes\<close>

text \<open>What a bulk accept does when every targeted node is new or already accepted:
  the new ones move to COMMISSIONING and are returned, the others are left alone and
  left out of the result.\<close>

lemma accept_each_ok:
  assumes "\<forall>n \<in> set ns. status n = NODE_STATUS E NEW \<or> status n \<in> set (ACCEPTED_STATUSES E)"
  shows "accept_each E u ns db
           = (Inr (map (\<lambda>n. if status n = NODE_STATUS E NEW
                            then Some (n\<lparr>status := NODE_STATUS E COMMISSIONING\<rparr>) else None) ns),
              fold (\<lambda>n d. if status n = NODE_STATUS E NEW
                           then save d (n\<lparr>status := NODE_STATUS E COMMISSIONING\<rparr>) else d) ns db)"
  using assms
  by (induction ns arbitrary: db) (auto simp: accept_enlistment_def)

lemma filter_None_map:
  "filter_None (map (\<lambda>n. if P n then Some (f n) else None) ns) = map f (filter P ns)"
  by (induction ns) auto

lemma accept_bulk:
  assumes d: "distinct (map system_id db)"
    and known: "set posted \<subseteq> system_id ` set db"
    and permitted: "\<forall>n \<in> set db. system_id n \<in> set posted \<longrightarrow> has_perm E u ADMIN n"
    and legal: "\<forall>n \<in> set db. system_id n \<in> set posted \<longrightarrow>
                  status n = NODE_STATUS E NEW \<or> status n \<in> set (ACCEPTED_STATUSES E)"
  shows "NodesHandler_accept E db u posted
           = (Inr (map (\<lambda>n. n\<lparr>status := NODE_STATUS E COMMISSIONING\<rparr>)
                    (filter (\<lambda>n. status n = NODE_STATUS E NEW) (targets db posted))),
              map (\<lambda>n. if system_id n \<in> set posted \<and> status n = NODE_STATUS E NEW
                        then n\<lparr>status := NODE_STATUS E COMMISSIONING\<rparr> else n) db)"
proof -
  have sub: "set (remdups posted) \<subseteq> system_id ` set db" using known by simp
  have nodes: "get_nodes E db u ADMIN (remdups posted) = targets db posted"
    unfolding get_nodes_def targets_def using permitted by (intro filter_cong) auto
  have nlt: "\<not> length (get_nodes E db u ADMIN (remdups posted)) < length (remdups posted)"
    using get_nodes_length [OF d distinct_remdups sub, of E u ADMIN] permitted by auto
  have dt: "distinct (map system_id (targets db posted))"
    unfolding targets_def using d by (rule distinct_map_filter)
  have lt: "\<forall>n \<in> set (targets db posted).
              status n = NODE_STATUS E NEW \<or> status n \<in> set (ACCEPTED_STATUSES E)"
    using legal by (auto simp: targets_def)
  have kt: "\<forall>n \<in> set (targets db posted).
              system_id (n\<lparr>status := NODE_STATUS E COMMISSIONING\<rparr>) = system_id n"
    by simp
  have dbpart: "fold (\<lambda>n d. if status n = NODE_STATUS E NEW
                           then save d (n\<lparr>status := NODE_STATUS E COMMISSIONING\<rparr>) else d)
                  (targets db posted) db
                = map (\<lambda>n. if system_id n \<in> set posted \<and> status n = NODE_STATUS E NEW
                        then n\<lparr>status := NODE_STATUS E COMMISSIONING\<rparr> else n) db"
    unfolding fold_save [OF dt kt]
    by (rule map_cong [OF refl]) (simp add: targets_def find_target [OF d])
  show ?thesis
    using check_known [OF sub] nlt
    by (simp add: NodesHandler_accept_def Let_def nodes accept_each_ok [OF lt]
          filter_None_map dbpart)
qed

text \<open>
  C9: the docstring of \<open>NodesHandler.accept\<close> promises the system_ids of the nodes
  whose status changed. For the registry \<open>pool\<close> and the identifiers n1 (READY,
  accepted before) and n3 (NEW), the handler returns the node n3 itself, in
  COMMISSIONING, and not its identifier; n1 is left alone and is not in the result.
\<close>

theorem accept_returns_nodes:
  "NodesHandler_accept site pool ''admin'' [''n1'', ''n3'']
     = (Inr [mk_node ''n3'' COMMISSIONING None],
        [mk_node ''n1'' READY None, mk_node ''n2'' DEPLOYED (Some ''alice''),
         mk_node ''n3'' COMMISSIONING None])"
  by (simp add: NodesHandler_accept_def check_system_ids_exist_def set_minus_def
        get_nodes_def accept_enlistment_def save_def site_eval Let_def)

subsection \<open>Creating a node\<close>












text \<open>
  C10: a request whose architecture contains a slash and which also gives a
  subarchitecture (present and not empty) raises the validation error
  "Subarchitecture cannot be specified twice." and leaves the registry as it was.
\<close>

theorem create_node_rejects_double_subarchitecture:
  assumes "has_slash (str_of (data req ''architecture''))"
    and "given (data req ''subarchitecture'')"
  shows "create_node E db req
           = (Inl (ValidationError [''Subarchitecture cannot be specified twice.'']), db)"
proof -
  have "given (data req ''architecture'')"
    using assms(1) by (cases "data req ''architecture''") (auto simp: given_def str_of_def has_slash_def)
  then show ?thesis
    using assms by (simp add: create_node_def create_node_architecture_def Let_def)
qed


theorem create_node_rejects_double_subarchitecture_witness:
  "has_slash (str_of (data twice_request ''architecture''))
   \<and> given (data twice_request ''subarchitecture'')
   \<and> create_node site pool twice_request
       = (Inl (ValidationError [''Subarchitecture cannot be specified twice.'']), pool)"
proof -
  have h: "has_slash (str_of (data twice_request ''architecture''))"
    by (simp add: twice_request_def str_of_def has_slash_def)
  have g: "given (data twice_request ''subarchitecture'')"
    by (simp add: twice_request_def given_def)
  show ?thesis
    using create_node_rejects_double_subarchitecture [OF h g, of site pool] h g by simp
qed

end
